theory Spec2Isabelle
  imports Complex_Main "HOL-Library.Multiset" "HOL-Library.Char_ord" "HOL-Library.List_Lexorder"
begin

section \<open>The movie store of src/index.js\<close>

subsection \<open>Records\<close>

text \<open>
  A movie is a JavaScript object. The JSDoc typedef \<open>Movie\<close> gives it the optional
  properties \<open>description\<close>, \<open>subtitle\<close>, \<open>thumb\<close>, \<open>title\<close> and \<open>genre\<close>; the store
  adds \<open>id\<close> and \<open>rating\<close>. Every property is optional: \<open>None\<close> is "the object has no
  such property", which JavaScript reads as \<open>undefined\<close>. Properties outside this list
  are kept in \<open>extra\<close>, by name. Values have the types the JSDoc gives them: an id is a
  non-negative integer, a rating a number, the texts are strings (compared by code
  unit, here by byte). The field \<open>id\<close> is called \<open>id_m\<close>, since \<open>id\<close> is the identity
  function of HOL.
\<close>

datatype jsval = Num real | Str string | StrArr "string list"

record movie =
  id_m :: "nat option"
  rating :: "real option"
  description :: "string option"
  subtitle :: "string list option"
  thumb :: "string option"
  title :: "string option"
  genre :: "string option"
  extra :: "string \<Rightarrow> jsval option"

text \<open>
  The store: \<open>this.idCount\<close> and \<open>this.movies\<close>. The counter starts at 0 and only ever
  goes up by one, so it is a natural number (as a double it is exact below \<open>2^53\<close>).
\<close>

record store =
  idCount :: nat
  movies :: "movie list"

text \<open>\<open>console.log('Invalid movie id')\<close> is the only failure the class reports.\<close>

datatype error = NotFound

subsection \<open>Object literals with a spread\<close>

text \<open>
  \<open>{ ...a, ...b }\<close> writes the own properties of \<open>a\<close>, then those of \<open>b\<close>: a property
  that \<open>b\<close> has replaces the one of \<open>a\<close>.
\<close>

definition later :: "'a option \<Rightarrow> 'a option \<Rightarrow> 'a option" where
  "later x y = (case y of None \<Rightarrow> x | Some v \<Rightarrow> Some v)"

definition obj_spread :: "movie \<Rightarrow> movie \<Rightarrow> movie" where
  "obj_spread a b =
     \<lparr> id_m = later (id_m a) (id_m b),
       rating = later (rating a) (rating b),
       description = later (description a) (description b),
       subtitle = later (subtitle a) (subtitle b),
       thumb = later (thumb a) (thumb b),
       title = later (title a) (title b),
       genre = later (genre a) (genre b),
       extra = extra a ++ extra b \<rparr>"

definition empty_obj :: movie where
  "empty_obj =
     \<lparr> id_m = None, rating = None, description = None, subtitle = None, thumb = None,
       title = None, genre = None, extra = Map.empty \<rparr>"

text \<open>\<open>{ id: c, rating: g, ...m }\<close>, the literal of the constructor and of \<open>addMovie\<close>.\<close>

definition stamped :: "nat \<Rightarrow> real \<Rightarrow> movie \<Rightarrow> movie" where
  "stamped c g m = obj_spread (empty_obj\<lparr>id_m := Some c, rating := Some g\<rparr>) m"

subsection \<open>generateRating\<close>

text \<open>
  \<open>Math.round((Math.random() * (5 - 1) + 1) * 10) / 10\<close>. The value \<open>r\<close> is what
  \<open>Math.random()\<close> returned, and \<open>fl\<close> is the rounding of the double arithmetic: the
  result of every product, sum and quotient passes through it. \<open>Math.round\<close> gives the
  nearest integer, a tie going up.
\<close>

definition js_round :: "real \<Rightarrow> int" where
  "js_round x = \<lfloor>x + 1 / 2\<rfloor>"

definition generateRating :: "(real \<Rightarrow> real) \<Rightarrow> real \<Rightarrow> real" where
  "generateRating fl r =
     fl (of_int (js_round (fl (fl (fl (r * (5 - 1)) + 1) * 10))) / 10)"

subsection \<open>The constructor\<close>

text \<open>
  \<open>for (const key in movies) { movies[key] = { id: this.idCount, rating:
  this.generateRating(), ...movies[key] }; this.idCount++; }\<close>. The loop visits the
  array in index order; \<open>c\<close> is \<open>this.idCount\<close>, and \<open>rs c\<close> is what \<open>Math.random()\<close>
  returns in the round that starts with the counter at \<open>c\<close> (the constructor starts at 0
  and draws once per round). The loop returns the array and the counter it ends with.
\<close>

fun stamp_loop :: "(real \<Rightarrow> real) \<Rightarrow> (nat \<Rightarrow> real) \<Rightarrow> nat \<Rightarrow> movie list \<Rightarrow> movie list \<times> nat" where
  "stamp_loop fl rs c [] = ([], c)"
| "stamp_loop fl rs c (m # ms) =
     (let m' = stamped c (generateRating fl (rs c)) m;
          (ms', c') = stamp_loop fl rs (Suc c) ms
      in (m' # ms', c'))"

definition MovieAPI :: "(real \<Rightarrow> real) \<Rightarrow> (nat \<Rightarrow> real) \<Rightarrow> movie list \<Rightarrow> store" where
  "MovieAPI fl rs ms =
     (let (ms', c) = stamp_loop fl rs 0 ms in \<lparr> idCount = c, movies = ms' \<rparr>)"

subsection \<open>Comparisons and Array.prototype.sort\<close>

text \<open>
  \<open>a > b\<close> on two strings, or on two numbers, is the order of their type; when either
  side is \<open>undefined\<close> it is false (the operand becomes NaN).
\<close>

definition js_gt :: "'a::linorder option \<Rightarrow> 'a option \<Rightarrow> bool" where
  "js_gt a b = (case (a, b) of (Some x, Some y) \<Rightarrow> y < x | _ \<Rightarrow> False)"

text \<open>
  \<open>Array.prototype.sort(cmp)\<close> belongs to the engine, not to this repository. The
  model is the sort of node's engine, V8, as it runs on an array of fewer than 64
  elements: \<open>CountAndMakeRun\<close> takes the run the array starts with, and
  \<open>BinaryInsertionSort\<close> inserts every later element into the sorted front, at the
  place a binary search finds. V8 cuts a longer array into such runs of 32 to 64
  elements and merges them; the merge is not modelled, so on an array of 64 elements or
  more the model can return another order than V8 where the comparator does not order
  the elements (equal keys, missing keys). Where the keys are present and pairwise
  distinct there is only one sorted order.

  The run: the order of the first two elements decides whether it ascends or descends.
  It goes on while \<open>cmp\<close> of an element and the one before it keeps that direction
  (\<open>order < 0\<close> is descending, \<open>order >= 0\<close> ascending), and a descending run is
  reversed in place. \<open>run_length\<close> counts the elements after the second.
\<close>

fun run_length :: "('a \<Rightarrow> 'a \<Rightarrow> int) \<Rightarrow> bool \<Rightarrow> 'a \<Rightarrow> 'a list \<Rightarrow> nat" where
  "run_length cmp desc prev [] = 0"
| "run_length cmp desc prev (x # xs) =
     (let order = cmp x prev
      in if (if desc then order \<ge> 0 else order < 0) then 0
         else Suc (run_length cmp desc x xs))"

definition reverse_range :: "nat \<Rightarrow> 'a list \<Rightarrow> 'a list" where
  "reverse_range n a = rev (take n a) @ drop n a"

fun count_and_make_run :: "('a \<Rightarrow> 'a \<Rightarrow> int) \<Rightarrow> 'a list \<Rightarrow> nat \<times> 'a list" where
  "count_and_make_run cmp [] = (0, [])"
| "count_and_make_run cmp [x] = (1, [x])"
| "count_and_make_run cmp (x0 # x1 # xs) =
     (let desc = (cmp x1 x0 < 0);
          n = 2 + run_length cmp desc x1 xs
      in (n, if desc then reverse_range n (x0 # x1 # xs) else x0 # x1 # xs))"

text \<open>
  The binary search of \<open>BinaryInsertionSort\<close> over the sorted front \<open>a\<close>: with
  \<open>mid\<close> the middle of the range, \<open>cmp pivot a[mid] < 0\<close> goes on in the part before
  \<open>mid\<close>, anything else in the part after it. The result is the index where the
  pivot is put.
\<close>

function binary_search :: "('a \<Rightarrow> 'a \<Rightarrow> int) \<Rightarrow> 'a \<Rightarrow> 'a list \<Rightarrow> nat" where
  "binary_search cmp pivot [] = 0"
| "binary_search cmp pivot (x # xs) =
     (let mid = length (x # xs) div 2
      in if cmp pivot ((x # xs) ! mid) < 0 then binary_search cmp pivot (take mid (x # xs))
         else mid + 1 + binary_search cmp pivot (drop (mid + 1) (x # xs)))"
  by pat_completeness auto
termination
  by (relation "measure (\<lambda>(cmp, pivot, a). length a)") auto

declare binary_search.simps [simp del]

definition binary_insert :: "('a \<Rightarrow> 'a \<Rightarrow> int) \<Rightarrow> 'a \<Rightarrow> 'a list \<Rightarrow> 'a list" where
  "binary_insert cmp pivot a =
     (let left = binary_search cmp pivot a in take left a @ pivot # drop left a)"

fun binary_insertion_sort :: "('a \<Rightarrow> 'a \<Rightarrow> int) \<Rightarrow> 'a list \<Rightarrow> 'a list \<Rightarrow> 'a list" where
  "binary_insertion_sort cmp a [] = a"
| "binary_insertion_sort cmp a (pivot # rest) =
     binary_insertion_sort cmp (binary_insert cmp pivot a) rest"

definition array_sort :: "('a \<Rightarrow> 'a \<Rightarrow> int) \<Rightarrow> 'a list \<Rightarrow> 'a list" where
  "array_sort cmp xs =
     (if length xs < 2 then xs
      else let (n, ys) = count_and_make_run cmp xs
           in binary_insertion_sort cmp (take n ys) (drop n ys))"

text \<open>\<open>findIndex\<close>: the first index whose element satisfies \<open>P\<close>, or \<open>-1\<close>.\<close>

fun findIndex :: "('a \<Rightarrow> bool) \<Rightarrow> 'a list \<Rightarrow> int" where
  "findIndex P [] = - 1"
| "findIndex P (x # xs) =
     (if P x then 0 else (let i = findIndex P xs in if i = - 1 then - 1 else i + 1))"

subsection \<open>The methods\<close>

text \<open>
  A method that changes \<open>this\<close> takes the store and returns the new one; a method that
  returns a value and changes \<open>this\<close> returns both. The in-place sort returns the array
  it sorted, which is \<open>this.movies\<close> afterwards.
\<close>

definition fetchAllMovies :: "store \<Rightarrow> movie list" where
  "fetchAllMovies st = movies st"

text \<open>
  \<open>movie.genre === genre\<close>: both \<open>undefined\<close>, or both the same string. The argument
  \<open>None\<close> is a call with no genre, or with \<open>undefined\<close>.
\<close>

definition fetchMoviesByGenre :: "string option \<Rightarrow> store \<Rightarrow> movie list" where
  "fetchMoviesByGenre g st = filter (\<lambda>movie. genre movie = g) (movies st)"

text \<open>
  \<open>movie.id === id\<close> and \<open>movie.id != id\<close> with a number \<open>id\<close>: an object without
  an id equals no number.
\<close>

definition deleteMovieById :: "nat \<Rightarrow> store \<Rightarrow> (error + unit) \<times> store" where
  "deleteMovieById i st =
     (if find (\<lambda>movie. id_m movie = Some i) (movies st) = None then (Inl NotFound, st)
      else (Inr (), st\<lparr>movies := filter (\<lambda>movie. id_m movie \<noteq> Some i) (movies st)\<rparr>))"

text \<open>\<open>({ subtitle, thumb, ...rest }) => rest\<close>.\<close>

definition fetchMoviesNoSubThumb :: "store \<Rightarrow> movie list" where
  "fetchMoviesNoSubThumb st = map (\<lambda>m. m\<lparr>subtitle := None, thumb := None\<rparr>) (movies st)"

definition fetchMoviesSortedByName :: "store \<Rightarrow> movie list \<times> store" where
  "fetchMoviesSortedByName st =
     (let sorted = array_sort (\<lambda>m1 m2. if js_gt (title m1) (title m2) then 1 else - 1) (movies st)
      in (sorted, st\<lparr>movies := sorted\<rparr>))"

text \<open>\<open>sorted.slice(-2).concat(sorted.slice(0, 2))\<close>: \<open>slice(-2)\<close> starts at
  \<open>max (length - 2) 0\<close>, which is the subtraction of \<open>nat\<close>.\<close>

definition fetchTopBot2 :: "store \<Rightarrow> movie list \<times> store" where
  "fetchTopBot2 st =
     (let sorted = array_sort (\<lambda>m1 m2. if js_gt (rating m1) (rating m2) then 1 else - 1) (movies st)
      in (drop (length sorted - 2) sorted @ take 2 sorted, st\<lparr>movies := sorted\<rparr>))"

text \<open>The two printing methods return what they print.\<close>

definition printTop3 :: "store \<Rightarrow> movie list \<times> store" where
  "printTop3 st =
     (let sorted = array_sort (\<lambda>m1 m2. if js_gt (rating m2) (rating m1) then 1 else - 1) (movies st)
      in (take 3 sorted, st\<lparr>movies := sorted\<rparr>))"

definition printBottomToTopRated :: "store \<Rightarrow> movie list \<times> store" where
  "printBottomToTopRated st =
     (let botToTop = array_sort (\<lambda>m1 m2. if js_gt (rating m1) (rating m2) then 1 else - 1) (movies st)
      in (botToTop, st\<lparr>movies := botToTop\<rparr>))"

text \<open>\<open>addMovie\<close>; \<open>r\<close> is what \<open>Math.random()\<close> returns in this call.\<close>

definition addMovie :: "(real \<Rightarrow> real) \<Rightarrow> real \<Rightarrow> movie \<Rightarrow> store \<Rightarrow> store" where
  "addMovie fl r movie st =
     \<lparr> idCount = Suc (idCount st),
       movies = movies st @ [stamped (idCount st) (generateRating fl r) movie] \<rparr>"


definition editMovieTitleById :: "nat \<Rightarrow> string \<Rightarrow> store \<Rightarrow> (error + unit) \<times> store" where
  "editMovieTitleById i t st =
     (let k = findIndex (\<lambda>movie. id_m movie = Some i) (movies st)
      in if k = - 1 then (Inl NotFound, st)
         else (Inr (), st\<lparr>movies := (movies st)[nat k := (movies st ! nat k)\<lparr>title := Some t\<rparr>]\<rparr>))"

subsection \<open>Sequences of calls\<close>

text \<open>The calls a client can make on a store, and the store after a list of them.\<close>

datatype call =
    FetchAllMovies
  | FetchMoviesByGenre "string option"
  | DeleteMovieById nat
  | FetchMoviesNoSubThumb
  | FetchMoviesSortedByName
  | FetchTopBot2
  | PrintTop3
  | PrintBottomToTopRated
  | AddMovie real movie
  | FindMovieById nat
  | EditMovieTitleById nat string

fun exec :: "(real \<Rightarrow> real) \<Rightarrow> call \<Rightarrow> store \<Rightarrow> store" where
  "exec fl FetchAllMovies st = st"
| "exec fl (FetchMoviesByGenre g) st = st"
| "exec fl (DeleteMovieById i) st = snd (deleteMovieById i st)"
| "exec fl FetchMoviesNoSubThumb st = st"
| "exec fl FetchMoviesSortedByName st = snd (fetchMoviesSortedByName st)"
| "exec fl FetchTopBot2 st = snd (fetchTopBot2 st)"
| "exec fl PrintTop3 st = snd (printTop3 st)"
| "exec fl PrintBottomToTopRated st = snd (printBottomToTopRated st)"
| "exec fl (AddMovie r m) st = addMovie fl r m st"
| "exec fl (FindMovieById i) st = st"
| "exec fl (EditMovieTitleById i t) st = snd (editMovieTitleById i t st)"

definition run :: "(real \<Rightarrow> real) \<Rightarrow> call list \<Rightarrow> store \<Rightarrow> store" where
  "run fl cs st = fold (exec fl) cs st"



text \<open>
  A comparator follows the keys \<open>k\<close> on a set of elements when a negative answer
  means "key not greater" and any other answer "key not smaller".
\<close>

definition key_order :: "('a \<Rightarrow> 'a \<Rightarrow> int) \<Rightarrow> ('a \<Rightarrow> 'b::linorder) \<Rightarrow> 'a set \<Rightarrow> bool" where
  "key_order cmp k S =
     (\<forall>x\<in>S. \<forall>y\<in>S. (cmp x y < 0 \<longrightarrow> k x \<le> k y) \<and> (0 \<le> cmp x y \<longrightarrow> k y \<le> k x))"

section \<open>Properties\<close>

subsection \<open>Ratings\<close>

lemma js_round_bounds:
  assumes "of_int a \<le> x" and "x \<le> of_int b"
  shows "a \<le> js_round x \<and> js_round x \<le> b"
proof -
  have "of_int a \<le> x + 1 / 2" using assms(1) by simp
  then have lo: "a \<le> \<lfloor>x + 1 / 2\<rfloor>" by (simp add: le_floor_iff)
  have "x + 1 / 2 < of_int (b + 1)" using assms(2) by simp
  then have "\<lfloor>x + 1 / 2\<rfloor> < b + 1" by (simp only: floor_less_iff)
  then show ?thesis using lo by (simp add: js_round_def)
qed

text \<open>
  Claim C6. Whatever \<open>Math.random()\<close> returns in \<open>[0, 1)\<close>, the rating lies in
  \<open>[1, 5]\<close> and is a number of tenths \<open>n / 10\<close> with \<open>n\<close> an integer from 10 to 50
  (as a double: the double that \<open>n / 10\<close> rounds to). The rounding \<open>fl\<close> of the double
  arithmetic is any monotone function that leaves the integers up to 50 as they are.
\<close>

theorem generateRating_in_range:
  assumes mn: "mono fl"
    and fx: "\<forall>n\<in>{0..50::int}. fl (of_int n) = of_int n"
    and r: "0 \<le> r" "r < 1"
  shows "1 \<le> generateRating fl r \<and> generateRating fl r \<le> 5 \<and>
         (\<exists>n\<in>{10..50::int}. generateRating fl r = fl (of_int n / 10))"
proof -
  have f0: "fl 0 = 0" using fx [rule_format, of 0] by simp
  have f1: "fl 1 = 1" using fx [rule_format, of 1] by simp
  have f4: "fl 4 = 4" using fx [rule_format, of 4] by simp
  have f5: "fl 5 = 5" using fx [rule_format, of 5] by simp
  have f10: "fl 10 = 10" using fx [rule_format, of 10] by simp
  have f50: "fl 50 = 50" using fx [rule_format, of 50] by simp
  define a where "a = fl (r * (5 - 1))"
  define b where "b = fl (a + 1)"
  define c where "c = fl (b * 10)"
  define n where "n = js_round c"
  have a: "0 \<le> a \<and> a \<le> 4"
    using monoD [OF mn, of 0 "r * (5 - 1)"] monoD [OF mn, of "r * (5 - 1)" 4] r f0 f4
    by (simp add: a_def)
  have b: "1 \<le> b \<and> b \<le> 5"
    using monoD [OF mn, of 1 "a + 1"] monoD [OF mn, of "a + 1" 5] a f1 f5
    by (simp add: b_def)
  have c: "10 \<le> c \<and> c \<le> 50"
    using monoD [OF mn, of 10 "b * 10"] monoD [OF mn, of "b * 10" 50] b f10 f50
    by (simp add: c_def)
  have n: "10 \<le> n \<and> n \<le> 50"
    using js_round_bounds [of 10 c 50] c by (simp add: n_def)
  have g: "generateRating fl r = fl (of_int n / 10)"
    by (simp add: generateRating_def n_def c_def b_def a_def)
  have q: "(1::real) \<le> of_int n / 10 \<and> of_int n / 10 \<le> (5::real)"
    using n by simp
  have "1 \<le> fl (of_int n / 10) \<and> fl (of_int n / 10) \<le> 5"
    using monoD [OF mn, of 1 "of_int n / 10"] monoD [OF mn, of "of_int n / 10" 5] q f1 f5
    by simp
  then show ?thesis using g n by auto
qed

theorem generateRating_in_range_witness:
  "mono (\<lambda>x::real. x) \<and> (\<forall>n::int. (\<lambda>x::real. x) (of_int n) = of_int n) \<and>
   (0::real) \<le> 3 / 10 \<and> (3::real) / 10 < 1 \<and>
   1 \<le> generateRating (\<lambda>x. x) (3 / 10) \<and> generateRating (\<lambda>x. x) (3 / 10) \<le> 5 \<and>
   (\<exists>n\<in>{10..50::int}. generateRating (\<lambda>x. x) (3 / 10) = (\<lambda>x. x) (of_int n / 10))"
proof -
  have m: "mono (\<lambda>x::real. x)" by (simp add: mono_def)
  have f: "\<forall>n\<in>{0..50::int}. (\<lambda>x::real. x) (of_int n) = of_int n" by simp
  show ?thesis
    using generateRating_in_range [OF m f, of "3 / 10"] m by simp
qed

subsection \<open>The spread, the constructor loop\<close>

lemma later_simps: "later x None = x" "later x (Some v) = Some v"
  by (simp_all add: later_def)

lemma stamped_eq:
  "stamped c g m =
     m\<lparr>id_m := (case id_m m of None \<Rightarrow> Some c | Some i \<Rightarrow> Some i),
       rating := (case rating m of None \<Rightarrow> Some g | Some x \<Rightarrow> Some x)\<rparr>"
  by (cases m) (simp add: stamped_def obj_spread_def empty_obj_def later_def split: option.splits)

lemma stamp_loop_eq:
  "stamp_loop fl rs c ms =
     (map (\<lambda>(j, m). stamped j (generateRating fl (rs j)) m) (zip [c..<c + length ms] ms),
      c + length ms)"
proof (induction ms arbitrary: c)
  case Nil
  show ?case by simp
next
  case (Cons m ms)
  have "[c..<c + Suc (length ms)] = c # [Suc c..<Suc c + length ms]"
    by (subst upt_conv_Cons) simp_all
  then show ?case by (simp add: Cons.IH)
qed

lemma MovieAPI_eq:
  "MovieAPI fl rs ms =
     \<lparr> idCount = length ms,
       movies = map (\<lambda>(j, m). stamped j (generateRating fl (rs j)) m) (zip [0..<length ms] ms) \<rparr>"
  by (simp add: MovieAPI_def stamp_loop_eq)

subsection \<open>The sort is a permutation, and sorts when the comparator follows the keys\<close>

lemma run_length_le: "run_length cmp desc prev xs \<le> length xs"
  by (induction xs arbitrary: prev) (simp_all add: Let_def)

lemma count_and_make_run_n:
  "fst (count_and_make_run cmp xs) \<le> length xs"
  "xs \<noteq> [] \<Longrightarrow> 0 < fst (count_and_make_run cmp xs)"
  using run_length_le [of cmp _ _ "tl (tl xs)"]
  by (induction cmp xs rule: count_and_make_run.induct) (simp_all add: Let_def)

lemma mset_take_drop: "mset (take n a) + mset (drop n a) = mset a"
proof -
  have "mset (take n a @ drop n a) = mset a" by simp
  then show ?thesis by (simp only: mset_append)
qed

lemma mset_reverse_range: "mset (reverse_range n a) = mset a"
  by (simp add: reverse_range_def mset_take_drop)

lemma mset_count_and_make_run: "mset (snd (count_and_make_run cmp xs)) = mset xs"
  by (induction cmp xs rule: count_and_make_run.induct)
     (simp_all add: Let_def mset_reverse_range del: mset.simps)

lemma mset_binary_insert: "mset (binary_insert cmp p a) = add_mset p (mset a)"
  by (simp add: binary_insert_def Let_def mset_take_drop)

lemma mset_binary_insertion_sort:
  "mset (binary_insertion_sort cmp a rest) = mset a + mset rest"
  by (induction rest arbitrary: a) (simp_all add: mset_binary_insert)

lemma mset_array_sort: "mset (array_sort cmp xs) = mset xs"
proof (cases "length xs < 2")
  case True
  then show ?thesis by (simp add: array_sort_def)
next
  case False
  obtain n ys where c: "count_and_make_run cmp xs = (n, ys)" by (cases "count_and_make_run cmp xs")
  have "mset ys = mset xs" using mset_count_and_make_run [of cmp xs] c by simp
  moreover have "mset (take n ys) + mset (drop n ys) = mset ys"
    by (rule mset_take_drop)
  ultimately show ?thesis using False c by (simp add: array_sort_def mset_binary_insertion_sort)
qed


lemma key_order_subset: "key_order cmp k S \<Longrightarrow> T \<subseteq> S \<Longrightarrow> key_order cmp k T"
  unfolding key_order_def by blast

lemma key_orderD:
  assumes "key_order cmp k S" and "x \<in> S" and "y \<in> S"
  shows "cmp x y < 0 \<Longrightarrow> k x \<le> k y" and "0 \<le> cmp x y \<Longrightarrow> k y \<le> k x"
  using assms unfolding key_order_def by blast+

lemma run_length_ascending:
  assumes "key_order cmp k (insert prev (set xs))"
  shows "sorted_wrt (\<lambda>a b. k a \<le> k b) (prev # take (run_length cmp False prev xs) xs)"
  using assms
proof (induction xs arbitrary: prev)
  case Nil
  show ?case by simp
next
  case (Cons x xs)
  show ?case
  proof (cases "cmp x prev < 0")
    case True
    then show ?thesis by (simp add: Let_def)
  next
    case False
    then have le: "k prev \<le> k x"
      using key_orderD(2) [OF Cons.prems, of x prev] by simp
    have "key_order cmp k (insert x (set xs))"
      using Cons.prems by (rule key_order_subset) auto
    then have "sorted_wrt (\<lambda>a b. k a \<le> k b) (x # take (run_length cmp False x xs) xs)"
      by (rule Cons.IH)
    then show ?thesis using False le by (auto simp: Let_def intro: order_trans)
  qed
qed

lemma run_length_descending:
  assumes "key_order cmp k (insert prev (set xs))"
  shows "sorted_wrt (\<lambda>a b. k b \<le> k a) (prev # take (run_length cmp True prev xs) xs)"
  using assms
proof (induction xs arbitrary: prev)
  case Nil
  show ?case by simp
next
  case (Cons x xs)
  show ?case
  proof (cases "0 \<le> cmp x prev")
    case True
    then show ?thesis by (simp add: Let_def)
  next
    case False
    then have le: "k x \<le> k prev"
      using key_orderD(1) [OF Cons.prems, of x prev] by simp
    have "key_order cmp k (insert x (set xs))"
      using Cons.prems by (rule key_order_subset) auto
    then have "sorted_wrt (\<lambda>a b. k b \<le> k a) (x # take (run_length cmp True x xs) xs)"
      by (rule Cons.IH)
    then show ?thesis using False le by (auto simp: Let_def intro: order_trans)
  qed
qed

lemma sorted_rev_descending:
  "sorted_wrt (\<lambda>a b. k b \<le> k a) l \<Longrightarrow> sorted (map k (rev l))"
  by (simp add: sorted_map sorted_wrt_rev)

lemma sorted_run:
  assumes "key_order cmp k (set xs)"
  shows "sorted (map k (take (fst (count_and_make_run cmp xs)) (snd (count_and_make_run cmp xs))))"
proof (cases xs rule: remdups_adj.cases)
  case 1
  then show ?thesis by simp
next
  case (2 x)
  then show ?thesis by simp
next
  case (3 x0 x1 ys)
  then have xs: "xs = x0 # x1 # ys" by simp
  have ko: "key_order cmp k (insert x1 (set ys))"
    using assms unfolding xs by (rule key_order_subset) auto
  let ?a = "x0 # x1 # ys"
  show ?thesis
  proof (cases "cmp x1 x0 < 0")
    case True
    let ?n = "2 + run_length cmp True x1 ys"
    have le: "k x1 \<le> k x0" using key_orderD(1) [OF assms, of x1 x0] True xs by simp
    have r: "sorted_wrt (\<lambda>a b. k b \<le> k a) (x1 # take (run_length cmp True x1 ys) ys)"
      using ko by (rule run_length_descending)
    have t: "take ?n ?a = x0 # x1 # take (run_length cmp True x1 ys) ys" by simp
    have d: "sorted_wrt (\<lambda>a b. k b \<le> k a) (take ?n ?a)"
      unfolding t using r le by (auto intro: order_trans)
    have "take ?n (reverse_range ?n ?a) = rev (take ?n ?a)"
      using run_length_le [of cmp True x1 ys] by (simp add: reverse_range_def)
    moreover have "sorted (map k (rev (take ?n ?a)))"
      using d by (rule sorted_rev_descending)
    ultimately show ?thesis using True unfolding xs by (simp add: Let_def del: take_Suc_Cons)
  next
    case False
    let ?n = "2 + run_length cmp False x1 ys"
    have le: "k x0 \<le> k x1" using key_orderD(2) [OF assms, of x1 x0] False xs by simp
    have r: "sorted_wrt (\<lambda>a b. k a \<le> k b) (x1 # take (run_length cmp False x1 ys) ys)"
      using ko by (rule run_length_ascending)
    have t: "take ?n ?a = x0 # x1 # take (run_length cmp False x1 ys) ys" by simp
    have "sorted_wrt (\<lambda>a b. k a \<le> k b) (take ?n ?a)"
      unfolding t using r le by (auto intro: order_trans)
    then have "sorted (map k (take ?n ?a))" by (simp add: sorted_map)
    then show ?thesis using False unfolding xs by (simp add: Let_def del: take_Suc_Cons)
  qed
qed


lemma sorted_map_nth:
  assumes "sorted (map k a)" and "i \<le> j" and "j < length a"
  shows "k (a ! i) \<le> k (a ! j)"
  using sorted_nth_mono [OF assms(1), of i j] assms(2,3) by simp

lemma binary_search_pos:
  assumes "sorted (map k a)"
    and "\<forall>y\<in>set a. (cmp p y < 0 \<longrightarrow> k p \<le> k y) \<and> (0 \<le> cmp p y \<longrightarrow> k y \<le> k p)"
  shows "binary_search cmp p a \<le> length a \<and>
         (\<forall>i<binary_search cmp p a. k (a ! i) \<le> k p) \<and>
         (\<forall>j. binary_search cmp p a \<le> j \<and> j < length a \<longrightarrow> k p \<le> k (a ! j))"
  using assms
proof (induction cmp p a rule: binary_search.induct)
  case (1 cmp pivot)
  show ?case by (simp add: binary_search.simps)
next
  case (2 cmp pivot x xs)
  let ?a = "x # xs"
  let ?mid = "length ?a div 2"
  have mid: "?mid < length ?a" by simp
  have am: "?a ! ?mid \<in> set ?a" using mid by (rule nth_mem)
  show ?case
  proof (cases "cmp pivot (?a ! ?mid) < 0")
    case True
    let ?l = "take ?mid ?a"
    let ?pos = "binary_search cmp pivot ?l"
    have pm: "k pivot \<le> k (?a ! ?mid)" using "2.prems"(2) am True by blast
    have s: "sorted (map k ?l)" using "2.prems"(1) by (simp add: take_map [symmetric] sorted_wrt_take del: take_Suc_Cons)
    have h: "\<forall>y\<in>set ?l. (cmp pivot y < 0 \<longrightarrow> k pivot \<le> k y) \<and> (0 \<le> cmp pivot y \<longrightarrow> k y \<le> k pivot)"
      using "2.prems"(2) by (meson in_set_takeD)
    have ih: "?pos \<le> length ?l \<and> (\<forall>i<?pos. k (?l ! i) \<le> k pivot) \<and>
         (\<forall>j. ?pos \<le> j \<and> j < length ?l \<longrightarrow> k pivot \<le> k (?l ! j))"
      using "2.IH"(1) [OF refl True s h] .
    have e: "binary_search cmp pivot ?a = ?pos"
      using True by (simp add: binary_search.simps Let_def del: take_Suc_Cons)
    have lm: "length ?l = ?mid" using mid by simp
    have a1: "?pos \<le> length ?a" using ih lm mid by linarith
    have a2: "\<forall>i<?pos. k (?a ! i) \<le> k pivot"
    proof (intro allI impI)
      fix i assume i: "i < ?pos"
      then have "i < ?mid" using ih lm by linarith
      then have "?l ! i = ?a ! i" by (rule nth_take)
      then show "k (?a ! i) \<le> k pivot" using ih i by metis
    qed
    have a3: "\<forall>j. ?pos \<le> j \<and> j < length ?a \<longrightarrow> k pivot \<le> k (?a ! j)"
    proof (intro allI impI)
      fix j assume j: "?pos \<le> j \<and> j < length ?a"
      show "k pivot \<le> k (?a ! j)"
      proof (cases "j < ?mid")
        case True
        then have "?l ! j = ?a ! j" by (rule nth_take)
        moreover have "k pivot \<le> k (?l ! j)" using ih j True lm by metis
        ultimately show ?thesis by simp
      next
        case False
        then have "k (?a ! ?mid) \<le> k (?a ! j)"
          using sorted_map_nth [OF "2.prems"(1), of ?mid j] j by simp
        then show ?thesis using pm by (rule order_trans [rotated])
      qed
    qed
    show ?thesis unfolding e using a1 a2 a3 by (intro conjI)
  next
    case False
    let ?r = "drop (?mid + 1) ?a"
    let ?pos = "binary_search cmp pivot ?r"
    have pm: "k (?a ! ?mid) \<le> k pivot" using "2.prems"(2) am False by (meson not_less)
    have s: "sorted (map k ?r)" using "2.prems"(1) by (simp add: drop_map [symmetric] sorted_wrt_drop del: drop_Suc_Cons)
    have h: "\<forall>y\<in>set ?r. (cmp pivot y < 0 \<longrightarrow> k pivot \<le> k y) \<and> (0 \<le> cmp pivot y \<longrightarrow> k y \<le> k pivot)"
      using "2.prems"(2) by (meson in_set_dropD)
    have ih: "?pos \<le> length ?r \<and> (\<forall>i<?pos. k (?r ! i) \<le> k pivot) \<and>
         (\<forall>j. ?pos \<le> j \<and> j < length ?r \<longrightarrow> k pivot \<le> k (?r ! j))"
      using "2.IH"(2) [OF refl False s h] .
    have e: "binary_search cmp pivot ?a = ?mid + 1 + ?pos"
      using False by (simp add: binary_search.simps Let_def del: drop_Suc_Cons)
    have lr: "length ?r = length ?a - (?mid + 1)" by (rule length_drop)
    have nr: "?r ! i = ?a ! (?mid + 1 + i)" if "?mid + 1 + i < length ?a" for i
      using that by (simp del: drop_Suc_Cons nth_Cons_Suc length_Cons add: nth_drop)
    have a1: "?mid + 1 + ?pos \<le> length ?a" using ih lr mid by linarith
    have a2: "\<forall>i<?mid + 1 + ?pos. k (?a ! i) \<le> k pivot"
    proof (intro allI impI)
      fix i assume i: "i < ?mid + 1 + ?pos"
      show "k (?a ! i) \<le> k pivot"
      proof (cases "i \<le> ?mid")
        case True
        then have "k (?a ! i) \<le> k (?a ! ?mid)"
          using sorted_map_nth [OF "2.prems"(1), of i ?mid] mid by simp
        then show ?thesis using pm by (rule order_trans)
      next
        case False
        define i' where "i' = i - (?mid + 1)"
        have i': "i = ?mid + 1 + i'" "i' < ?pos"
          using False i unfolding i'_def by linarith+
        have "?mid + 1 + i' < length ?a" using i' a1 by linarith
        then have "?r ! i' = ?a ! i" using nr [of i'] i'(1) by simp
        moreover have "k (?r ! i') \<le> k pivot" using ih i'(2) by metis
        ultimately show ?thesis by simp
      qed
    qed
    have a3: "\<forall>j. ?mid + 1 + ?pos \<le> j \<and> j < length ?a \<longrightarrow> k pivot \<le> k (?a ! j)"
    proof (intro allI impI)
      fix j assume j: "?mid + 1 + ?pos \<le> j \<and> j < length ?a"
      define j' where "j' = j - (?mid + 1)"
      have j': "j = ?mid + 1 + j'" "?pos \<le> j'" "j' < length ?r"
        using j unfolding lr j'_def by linarith+
      have "?r ! j' = ?a ! j" using nr [of j'] j j'(1) by simp
      moreover have "k pivot \<le> k (?r ! j')" using ih j'(2,3) by metis
      ultimately show "k pivot \<le> k (?a ! j)" by simp
    qed
    show ?thesis unfolding e using a1 a2 a3 by (intro conjI)
  qed
qed


lemma set_binary_insert: "set (binary_insert cmp p a) = insert p (set a)"
  using mset_binary_insert [of cmp p a] by (metis set_mset_mset set_mset_add_mset_insert)

lemma sorted_binary_insert:
  assumes "sorted (map k a)" and "key_order cmp k (insert p (set a))"
  shows "sorted (map k (binary_insert cmp p a))"
proof -
  let ?pos = "binary_search cmp p a"
  have h: "\<forall>y\<in>set a. (cmp p y < 0 \<longrightarrow> k p \<le> k y) \<and> (0 \<le> cmp p y \<longrightarrow> k y \<le> k p)"
    using assms(2) unfolding key_order_def by blast
  note b = binary_search_pos [of k a cmp p, OF assms(1) h]
  have lo: "\<forall>x\<in>set (take ?pos a). k x \<le> k p"
  proof
    fix x assume "x \<in> set (take ?pos a)"
    then obtain i where "i < length (take ?pos a)" "take ?pos a ! i = x"
      by (auto simp: in_set_conv_nth)
    then have "i < ?pos" "a ! i = x" by simp_all
    then show "k x \<le> k p" using b by blast
  qed
  have hi: "\<forall>y\<in>set (drop ?pos a). k p \<le> k y"
  proof
    fix y assume "y \<in> set (drop ?pos a)"
    then obtain j where j: "j < length (drop ?pos a)" "drop ?pos a ! j = y"
      by (auto simp: in_set_conv_nth)
    then have "?pos \<le> ?pos + j \<and> ?pos + j < length a" "a ! (?pos + j) = y"
      using b by simp_all
    then show "k p \<le> k y" using b by blast
  qed
  have "sorted (map k (take ?pos a @ drop ?pos a))" using assms(1) by simp
  then have s: "sorted (map k (take ?pos a))" "sorted (map k (drop ?pos a))"
    by (simp_all only: map_append sorted_append)
  show ?thesis
    unfolding binary_insert_def Let_def using s lo hi
    by (auto simp: sorted_append intro: order_trans)
qed

lemma sorted_binary_insertion_sort:
  assumes "sorted (map k a)" and "key_order cmp k (set a \<union> set rest)"
  shows "sorted (map k (binary_insertion_sort cmp a rest))"
  using assms
proof (induction rest arbitrary: a)
  case Nil
  then show ?case by simp
next
  case (Cons p rest)
  have "key_order cmp k (insert p (set a))"
    using Cons.prems(2) by (rule key_order_subset) auto
  then have "sorted (map k (binary_insert cmp p a))"
    using Cons.prems(1) by (intro sorted_binary_insert)
  moreover have "key_order cmp k (set (binary_insert cmp p a) \<union> set rest)"
    using Cons.prems(2) by (rule key_order_subset) (auto simp: set_binary_insert)
  ultimately show ?case by (simp add: Cons.IH)
qed

lemma set_array_sort: "set (array_sort cmp xs) = set xs"
  using mset_array_sort [of cmp xs] by (metis set_mset_mset)


lemma sorted_array_sort:
  fixes k :: "'a \<Rightarrow> 'b::linorder"
  assumes "key_order cmp k (set xs)"
  shows "sorted (map k (array_sort cmp xs))"
proof (cases "length xs < 2")
  case True
  then have "xs = [] \<or> (\<exists>x. xs = [x])" by (cases xs rule: remdups_adj.cases) auto
  then show ?thesis using True by (auto simp: array_sort_def)
next
  case False
  obtain n ys where c: "count_and_make_run cmp xs = (n, ys)" by (cases "count_and_make_run cmp xs")
  have m: "mset ys = mset xs" using mset_count_and_make_run [of cmp xs] c by simp
  have r: "sorted (map k (take n ys))" using sorted_run [OF assms] c by simp
  have "set (take n ys) \<union> set (drop n ys) = set ys" by (metis append_take_drop_id set_append)
  also have "\<dots> = set xs" using m by (rule mset_eq_setD)
  finally have "key_order cmp k (set (take n ys) \<union> set (drop n ys))" using assms by simp
  then have "sorted (map k (binary_insertion_sort cmp (take n ys) (drop n ys)))"
    using r by (intro sorted_binary_insertion_sort)
  then show ?thesis using False c by (simp add: array_sort_def)
qed


subsection \<open>findIndex and find\<close>

lemma findIndex_ge: "- 1 \<le> findIndex P xs"
  by (induction xs) (simp_all add: Let_def)

lemma findIndex_none: "(findIndex P xs = - 1) = (\<forall>x\<in>set xs. \<not> P x)"
proof (induction xs)
  case Nil
  show ?case by simp
next
  case (Cons x xs)
  show ?case using Cons findIndex_ge [of P xs] by (auto simp: Let_def)
qed


subsection \<open>Call sequences; every record of a store has a rating\<close>

lemma run_simps:
  "run fl [] st = st" "run fl (c # cs) st = run fl cs (exec fl c st)"
  "run fl (cs @ ds) st = run fl ds (run fl cs st)"
  by (simp_all add: run_def)

lemma rating_stamped: "\<exists>y. rating (stamped c g m) = Some y"
  by (simp add: stamped_eq split: option.splits)

lemma rated_MovieAPI: "\<forall>m\<in>set (movies (MovieAPI fl rs ms)). rating m \<noteq> None"
  by (auto simp: MovieAPI_eq rating_stamped)

lemma rated_title_update:
  fixes xs :: "movie list"
  assumes "\<forall>m\<in>set xs. rating m \<noteq> None"
  shows "\<forall>m\<in>set (xs[k := (xs ! k)\<lparr>title := t\<rparr>]). rating m \<noteq> None"
proof (cases "k < length xs")
  case True
  have "set (xs[k := (xs ! k)\<lparr>title := t\<rparr>]) \<subseteq> insert ((xs ! k)\<lparr>title := t\<rparr>) (set xs)"
    by (rule set_update_subset_insert)
  moreover have "rating ((xs ! k)\<lparr>title := t\<rparr>) \<noteq> None"
    using assms True by (simp del: not_None_eq)
  ultimately show ?thesis using assms by (auto simp del: not_None_eq)
next
  case False
  then show ?thesis using assms by (simp add: list_update_beyond del: not_None_eq)
qed

lemma rated_exec:
  assumes "\<forall>m\<in>set (movies st). rating m \<noteq> None"
  shows "\<forall>m\<in>set (movies (exec fl c st)). rating m \<noteq> None"
proof (cases c)
  case (DeleteMovieById i)
  then show ?thesis using assms by (simp add: deleteMovieById_def del: not_None_eq)
next
  case FetchMoviesSortedByName
  then show ?thesis
    using assms by (simp add: fetchMoviesSortedByName_def Let_def set_array_sort del: not_None_eq)
next
  case FetchTopBot2
  then show ?thesis
    using assms by (simp add: fetchTopBot2_def Let_def set_array_sort del: not_None_eq)
next
  case PrintTop3
  then show ?thesis
    using assms by (simp add: printTop3_def Let_def set_array_sort del: not_None_eq)
next
  case PrintBottomToTopRated
  then show ?thesis
    using assms by (simp add: printBottomToTopRated_def Let_def set_array_sort del: not_None_eq)
next
  case (AddMovie r m)
  then show ?thesis
    using assms by (simp add: addMovie_def rating_stamped)
next
  case (EditMovieTitleById i t)
  then show ?thesis
    using rated_title_update [OF assms] assms
    by (simp add: editMovieTitleById_def Let_def del: not_None_eq)
qed (use assms in simp_all)

lemma rated_run: "\<forall>m\<in>set (movies (run fl cs (MovieAPI fl rs ms))). rating m \<noteq> None"
proof -
  have "\<forall>m\<in>set (movies (run fl cs st)). rating m \<noteq> None"
    if "\<forall>m\<in>set (movies st). rating m \<noteq> None" for st
    using that
  proof (induction cs arbitrary: st)
    case Nil
    then show ?case by (simp add: run_simps del: not_None_eq)
  next
    case (Cons c cs)
    have "\<forall>m\<in>set (movies (exec fl c st)). rating m \<noteq> None"
      using Cons.prems by (rule rated_exec)
    then show ?case using Cons.IH by (simp add: run_simps del: not_None_eq)
  qed
  then show ?thesis using rated_MovieAPI by blast
qed

subsection \<open>Stamping a record\<close>



subsection \<open>Top two and bottom two\<close>

lemma js_gt_simps:
  "js_gt (Some x) (Some y) = (y < x)" "js_gt None b = False" "js_gt a None = False"
  by (simp_all add: js_gt_def split: option.splits)

lemmas sort_eval =
  array_sort_def reverse_range_def binary_insert_def binary_search.simps Let_def

lemma js_gt_sort_sorted:
  fixes f :: "'a \<Rightarrow> 'b::linorder option"
  assumes "\<forall>m\<in>set xs. f m \<noteq> None"
  shows "sorted_wrt (\<lambda>a b. \<exists>x y. f a = Some x \<and> f b = Some y \<and> x \<le> y)
           (array_sort (\<lambda>m1 m2. if js_gt (f m1) (f m2) then 1 else - 1) xs)"
proof -
  let ?cmp = "\<lambda>m1 m2. if js_gt (f m1) (f m2) then 1 else - 1 :: int"
  let ?k = "\<lambda>m. the (f m)"
  have "(?cmp x y < 0 \<longrightarrow> ?k x \<le> ?k y) \<and> (0 \<le> ?cmp x y \<longrightarrow> ?k y \<le> ?k x)"
    if xy: "x \<in> set xs" "y \<in> set xs" for x y
  proof -
    obtain a b where "f x = Some a" "f y = Some b"
      using xy assms by blast
    then show ?thesis by (auto simp: js_gt_simps)
  qed
  then have "key_order ?cmp ?k (set xs)" unfolding key_order_def by blast
  then have "sorted (map ?k (array_sort ?cmp xs))" by (rule sorted_array_sort)
  then have sw: "sorted_wrt (\<lambda>a b. ?k a \<le> ?k b) (array_sort ?cmp xs)"
    by (simp add: sorted_map)
  have "\<exists>x y. f a = Some x \<and> f b = Some y \<and> x \<le> y"
    if ab: "a \<in> set (array_sort ?cmp xs)" "b \<in> set (array_sort ?cmp xs)" "?k a \<le> ?k b" for a b
  proof -
    obtain x y where "f a = Some x" "f b = Some y"
      using ab(1,2) assms unfolding set_array_sort by blast
    then show ?thesis using ab(3) by simp
  qed
  then show ?thesis by (rule sorted_wrt_mono_rel [OF _ sw])
qed

text \<open>
  Equal keys: the comparator answers \<open>-1\<close> for two records with the same rating, so
  three records with one rating count as a descending run and come out reversed, as node
  returns them. \<open>fetchTopBot2\<close> then returns the ids 1, 0, 2, 1.
\<close>

lemma fetchTopBot2_equal_ratings_example:
  "map rating (movies (MovieAPI (\<lambda>x. x) (\<lambda>k. 0) [empty_obj, empty_obj, empty_obj]))
     = [Some 1, Some 1, Some 1] \<and>
   map id_m (movies (snd (fetchTopBot2 (MovieAPI (\<lambda>x. x) (\<lambda>k. 0) [empty_obj, empty_obj, empty_obj]))))
     = [Some 2, Some 1, Some 0] \<and>
   map id_m (fst (fetchTopBot2 (MovieAPI (\<lambda>x. x) (\<lambda>k. 0) [empty_obj, empty_obj, empty_obj])))
     = [Some 1, Some 0, Some 2, Some 1]"
proof -
  have st: "MovieAPI (\<lambda>x. x) (\<lambda>k. 0) [empty_obj, empty_obj, empty_obj] =
     \<lparr> idCount = 3, movies = [empty_obj\<lparr>id_m := Some 0, rating := Some 1\<rparr>,
        empty_obj\<lparr>id_m := Some 1, rating := Some 1\<rparr>, empty_obj\<lparr>id_m := Some 2, rating := Some 1\<rparr>] \<rparr>"
    by (simp add: MovieAPI_def stamped_eq empty_obj_def generateRating_def js_round_def)
  show ?thesis unfolding st
    by (simp add: fetchTopBot2_def sort_eval empty_obj_def js_gt_simps)
qed




subsection \<open>Deleting by id\<close>



lemma distinct_ids_single:
  assumes "distinct (map f xs)" and "\<exists>x\<in>set xs. f x = v"
  shows "length (filter (\<lambda>x. f x = v) xs) = 1"
  using assms
proof (induction xs)
  case Nil
  then show ?case by simp
next
  case (Cons x xs)
  show ?case
  proof (cases "f x = v")
    case True
    then have "\<forall>y\<in>set xs. f y \<noteq> v" using Cons.prems(1) by (auto simp: image_iff)
    then have "filter (\<lambda>x. f x = v) xs = []" by (simp add: filter_empty_conv)
    then show ?thesis using True by simp
  next
    case False
    then show ?thesis using Cons by auto
  qed
qed





subsection \<open>Ids over the life of a store\<close>




















subsection \<open>Ids count up\<close>





subsection \<open>Sorting by title\<close>

text \<open>
  What \<open>fetchMoviesSortedByName\<close> returns is always a permutation of the store's records
  (the same multiset of records and of ids), and the store holds that sequence
  afterwards. When every record has a title, the sequence is non-decreasing by title
  in the order of the strings by code unit.
\<close>

lemma fetchMoviesSortedByName_titled:
  "mset (fst (fetchMoviesSortedByName st)) = mset (movies st) \<and>
   mset (map id_m (fst (fetchMoviesSortedByName st))) = mset (map id_m (movies st)) \<and>
   movies (snd (fetchMoviesSortedByName st)) = fst (fetchMoviesSortedByName st) \<and>
   ((\<forall>m\<in>set (movies st). title m \<noteq> None) \<longrightarrow>
      sorted_wrt (\<lambda>a b. \<exists>x y. title a = Some x \<and> title b = Some y \<and> x \<le> y)
        (fst (fetchMoviesSortedByName st)))"
proof -
  let ?s = "array_sort (\<lambda>m1 m2. if js_gt (title m1) (title m2) then 1 else - 1) (movies st)"
  have r: "fst (fetchMoviesSortedByName st) = ?s"
    and st': "movies (snd (fetchMoviesSortedByName st)) = ?s"
    by (simp_all add: fetchMoviesSortedByName_def Let_def)
  have p: "mset ?s = mset (movies st)" by (rule mset_array_sort)
  have q: "mset (map id_m ?s) = mset (map id_m (movies st))"
    using arg_cong [OF p, of "image_mset id_m"] by simp
  have s: "sorted_wrt (\<lambda>a b. \<exists>x y. title a = Some x \<and> title b = Some y \<and> x \<le> y) ?s"
    if "\<forall>m\<in>set (movies st). title m \<noteq> None"
    using that by (rule js_gt_sort_sorted)
  show ?thesis unfolding r st'
  proof (intro conjI impI)
    show "mset ?s = mset (movies st)" by (rule p)
    show "mset (map id_m ?s) = mset (map id_m (movies st))" by (rule q)
    show "?s = ?s" ..
    show "sorted_wrt (\<lambda>a b. \<exists>x y. title a = Some x \<and> title b = Some y \<and> x \<le> y) ?s"
      if "\<forall>m\<in>set (movies st). title m \<noteq> None"
      using that by (rule s)
  qed
qed


text \<open>
  The scenario of the spec: the titles \<open>B\<close>, \<open>A\<close> come back as \<open>A\<close>, \<open>B\<close>, with the
  ids 1, 0.
\<close>

lemma fetchMoviesSortedByName_titled_example:
  "map title (movies (MovieAPI (\<lambda>x. x) (\<lambda>k. 0)
      [empty_obj\<lparr>title := Some ''B''\<rparr>, empty_obj\<lparr>title := Some ''A''\<rparr>])) = [Some ''B'', Some ''A''] \<and>
   map id_m (fst (fetchMoviesSortedByName (MovieAPI (\<lambda>x. x) (\<lambda>k. 0)
      [empty_obj\<lparr>title := Some ''B''\<rparr>, empty_obj\<lparr>title := Some ''A''\<rparr>]))) = [Some 1, Some 0] \<and>
   map title (fst (fetchMoviesSortedByName (MovieAPI (\<lambda>x. x) (\<lambda>k. 0)
      [empty_obj\<lparr>title := Some ''B''\<rparr>, empty_obj\<lparr>title := Some ''A''\<rparr>]))) = [Some ''A'', Some ''B''] \<and>
   sorted_wrt (\<lambda>a b. \<exists>x y. title a = Some x \<and> title b = Some y \<and> x \<le> y)
     (fst (fetchMoviesSortedByName (MovieAPI (\<lambda>x. x) (\<lambda>k. 0)
      [empty_obj\<lparr>title := Some ''B''\<rparr>, empty_obj\<lparr>title := Some ''A''\<rparr>]))) \<and>
   mset (fst (fetchMoviesSortedByName (MovieAPI (\<lambda>x. x) (\<lambda>k. 0)
      [empty_obj\<lparr>title := Some ''B''\<rparr>, empty_obj\<lparr>title := Some ''A''\<rparr>]))) =
   mset (movies (MovieAPI (\<lambda>x. x) (\<lambda>k. 0)
      [empty_obj\<lparr>title := Some ''B''\<rparr>, empty_obj\<lparr>title := Some ''A''\<rparr>]))"
proof -
  let ?st = "MovieAPI (\<lambda>x. x) (\<lambda>k. 0)
      [empty_obj\<lparr>title := Some ''B''\<rparr>, empty_obj\<lparr>title := Some ''A''\<rparr>]"
  have st: "?st = \<lparr> idCount = 2, movies =
       [empty_obj\<lparr>id_m := Some 0, rating := Some 1, title := Some ''B''\<rparr>,
        empty_obj\<lparr>id_m := Some 1, rating := Some 1, title := Some ''A''\<rparr>] \<rparr>"
    by (simp add: MovieAPI_def stamped_eq empty_obj_def generateRating_def js_round_def)
  have h: "\<forall>m\<in>set (movies ?st). title m \<noteq> None"
    unfolding st by (simp add: empty_obj_def)
  have t0: "map title (movies ?st) = [Some ''B'', Some ''A'']"
    unfolding st by (simp add: empty_obj_def)
  have ids: "map id_m (fst (fetchMoviesSortedByName ?st)) = [Some 1, Some 0]"
    unfolding st by (simp add: fetchMoviesSortedByName_def sort_eval empty_obj_def js_gt_simps)
  have ts: "map title (fst (fetchMoviesSortedByName ?st)) = [Some ''A'', Some ''B'']"
    unfolding st by (simp add: fetchMoviesSortedByName_def sort_eval empty_obj_def js_gt_simps)
  note c = fetchMoviesSortedByName_titled [of ?st]
  have s: "sorted_wrt (\<lambda>a b. \<exists>x y. title a = Some x \<and> title b = Some y \<and> x \<le> y)
     (fst (fetchMoviesSortedByName ?st))"
    using c h by blast
  have p: "mset (fst (fetchMoviesSortedByName ?st)) = mset (movies ?st)"
    using c by (elim conjE)
  show ?thesis using t0 ids ts s p by (intro conjI)
qed


text \<open>
  Claim C7. For every store the result of \<open>fetchMoviesSortedByName\<close> should be
  non-decreasing by title. The code does not do that on a store with a record that has
  no title, which the typedef allows: \<open>m1.title > m2.title\<close> is false whenever a title
  is missing, so the comparator answers \<open>-1\<close> for such a pair in both directions. With
  the titles \<open>b\<close>, none, \<open>a\<close>, \<open>c\<close> (ids 0 to 3) the first three records count as a
  descending run and are reversed, and \<open>c\<close> is then put right after \<open>a\<close>: the method
  returns \<open>a\<close>, \<open>c\<close>, none, \<open>b\<close>, with \<open>c\<close> ahead of \<open>b\<close>. The result is not
  non-decreasing even when a missing title counts as comparable with every title.
\<close>

theorem fetchMoviesSortedByName_untitled:
  "map title (movies (MovieAPI (\<lambda>x. x) (\<lambda>k. 0)
      [empty_obj\<lparr>title := Some ''b''\<rparr>, empty_obj, empty_obj\<lparr>title := Some ''a''\<rparr>,
       empty_obj\<lparr>title := Some ''c''\<rparr>])) = [Some ''b'', None, Some ''a'', Some ''c''] \<and>
   map title (fst (fetchMoviesSortedByName (MovieAPI (\<lambda>x. x) (\<lambda>k. 0)
      [empty_obj\<lparr>title := Some ''b''\<rparr>, empty_obj, empty_obj\<lparr>title := Some ''a''\<rparr>,
       empty_obj\<lparr>title := Some ''c''\<rparr>]))) = [Some ''a'', Some ''c'', None, Some ''b''] \<and>
   map id_m (fst (fetchMoviesSortedByName (MovieAPI (\<lambda>x. x) (\<lambda>k. 0)
      [empty_obj\<lparr>title := Some ''b''\<rparr>, empty_obj, empty_obj\<lparr>title := Some ''a''\<rparr>,
       empty_obj\<lparr>title := Some ''c''\<rparr>]))) = [Some 2, Some 3, Some 1, Some 0] \<and>
   \<not> sorted_wrt (\<lambda>a b. \<not> js_gt (title a) (title b))
     (fst (fetchMoviesSortedByName (MovieAPI (\<lambda>x. x) (\<lambda>k. 0)
      [empty_obj\<lparr>title := Some ''b''\<rparr>, empty_obj, empty_obj\<lparr>title := Some ''a''\<rparr>,
       empty_obj\<lparr>title := Some ''c''\<rparr>])))"
proof -
  let ?st = "MovieAPI (\<lambda>x. x) (\<lambda>k. 0)
      [empty_obj\<lparr>title := Some ''b''\<rparr>, empty_obj, empty_obj\<lparr>title := Some ''a''\<rparr>,
       empty_obj\<lparr>title := Some ''c''\<rparr>]"
  have st: "?st = \<lparr> idCount = 4, movies =
       [empty_obj\<lparr>id_m := Some 0, rating := Some 1, title := Some ''b''\<rparr>,
        empty_obj\<lparr>id_m := Some 1, rating := Some 1\<rparr>,
        empty_obj\<lparr>id_m := Some 2, rating := Some 1, title := Some ''a''\<rparr>,
        empty_obj\<lparr>id_m := Some 3, rating := Some 1, title := Some ''c''\<rparr>] \<rparr>"
    by (simp add: MovieAPI_def stamped_eq empty_obj_def generateRating_def js_round_def)
  have r: "fst (fetchMoviesSortedByName ?st) =
       [empty_obj\<lparr>id_m := Some 2, rating := Some 1, title := Some ''a''\<rparr>,
        empty_obj\<lparr>id_m := Some 3, rating := Some 1, title := Some ''c''\<rparr>,
        empty_obj\<lparr>id_m := Some 1, rating := Some 1\<rparr>,
        empty_obj\<lparr>id_m := Some 0, rating := Some 1, title := Some ''b''\<rparr>]"
    unfolding st by (simp add: fetchMoviesSortedByName_def sort_eval empty_obj_def js_gt_simps)
  have t: "map title (movies ?st) = [Some ''b'', None, Some ''a'', Some ''c'']"
    unfolding st by (simp add: empty_obj_def)
  show ?thesis unfolding r using t by (simp add: empty_obj_def js_gt_simps)
qed

subsection \<open>The projection without subtitle and thumb\<close>

text \<open>
  Claim C8. For every store, \<open>fetchMoviesNoSubThumb\<close> returns as many records as
  \<open>fetchAllMovies\<close>, with the same ids in the same order; in every element \<open>subtitle\<close>
  and \<open>thumb\<close> are absent, and every other field, the extra ones included, is that of
  the element of \<open>fetchAllMovies\<close> at the same position.
\<close>

theorem fetchMoviesNoSubThumb_projection:
  "length (fetchMoviesNoSubThumb st) = length (fetchAllMovies st) \<and>
   map id_m (fetchMoviesNoSubThumb st) = map id_m (fetchAllMovies st) \<and>
   list_all2 (\<lambda>p m. subtitle p = None \<and> thumb p = None \<and> id_m p = id_m m \<and>
                rating p = rating m \<and> description p = description m \<and> title p = title m \<and>
                genre p = genre m \<and> extra p = extra m)
     (fetchMoviesNoSubThumb st) (fetchAllMovies st)"
  by (simp add: fetchMoviesNoSubThumb_def fetchAllMovies_def list_all2_map1 list_all2_same)

theorem fetchMoviesNoSubThumb_projection_witness:
  "fetchAllMovies (MovieAPI (\<lambda>x. x) (\<lambda>k. 0)
     [empty_obj\<lparr>subtitle := Some [''en'', ''sv''], thumb := Some ''a.png'', title := Some ''A'',
                extra := [''year'' \<mapsto> Num 1999]\<rparr>]) =
     [\<lparr> id_m = Some 0, rating = Some 1, description = None, subtitle = Some [''en'', ''sv''],
        thumb = Some ''a.png'', title = Some ''A'', genre = None, extra = [''year'' \<mapsto> Num 1999] \<rparr>] \<and>
   fetchMoviesNoSubThumb (MovieAPI (\<lambda>x. x) (\<lambda>k. 0)
     [empty_obj\<lparr>subtitle := Some [''en'', ''sv''], thumb := Some ''a.png'', title := Some ''A'',
                extra := [''year'' \<mapsto> Num 1999]\<rparr>]) =
     [\<lparr> id_m = Some 0, rating = Some 1, description = None, subtitle = None,
        thumb = None, title = Some ''A'', genre = None, extra = [''year'' \<mapsto> Num 1999] \<rparr>] \<and>
   length (fetchMoviesNoSubThumb (MovieAPI (\<lambda>x. x) (\<lambda>k. 0)
     [empty_obj\<lparr>subtitle := Some [''en'', ''sv''], thumb := Some ''a.png'', title := Some ''A'',
                extra := [''year'' \<mapsto> Num 1999]\<rparr>])) =
   length (fetchAllMovies (MovieAPI (\<lambda>x. x) (\<lambda>k. 0)
     [empty_obj\<lparr>subtitle := Some [''en'', ''sv''], thumb := Some ''a.png'', title := Some ''A'',
                extra := [''year'' \<mapsto> Num 1999]\<rparr>]))"
proof -
  let ?st = "MovieAPI (\<lambda>x. x) (\<lambda>k. 0)
     [empty_obj\<lparr>subtitle := Some [''en'', ''sv''], thumb := Some ''a.png'', title := Some ''A'',
                extra := [''year'' \<mapsto> Num 1999]\<rparr>]"
  have st: "?st = \<lparr> idCount = 1, movies =
     [\<lparr> id_m = Some 0, rating = Some 1, description = None, subtitle = Some [''en'', ''sv''],
        thumb = Some ''a.png'', title = Some ''A'', genre = None, extra = [''year'' \<mapsto> Num 1999] \<rparr>] \<rparr>"
    by (simp add: MovieAPI_def stamped_def obj_spread_def later_def empty_obj_def generateRating_def
        js_round_def)
  have a: "fetchAllMovies ?st =
     [\<lparr> id_m = Some 0, rating = Some 1, description = None, subtitle = Some [''en'', ''sv''],
        thumb = Some ''a.png'', title = Some ''A'', genre = None, extra = [''year'' \<mapsto> Num 1999] \<rparr>]"
    unfolding st by (simp add: fetchAllMovies_def)
  have b: "fetchMoviesNoSubThumb ?st =
     [\<lparr> id_m = Some 0, rating = Some 1, description = None, subtitle = None,
        thumb = None, title = Some ''A'', genre = None, extra = [''year'' \<mapsto> Num 1999] \<rparr>]"
    unfolding st by (simp add: fetchMoviesNoSubThumb_def)
  have c: "length (fetchMoviesNoSubThumb ?st) = length (fetchAllMovies ?st)"
    using fetchMoviesNoSubThumb_projection [of ?st] by (elim conjE)
  show ?thesis using a b c by (intro conjI)
qed

subsection \<open>Editing a title\<close>




subsection \<open>Fetching by an absent genre\<close>

text \<open>
  Claim C10. For every store, \<open>fetchMoviesByGenre\<close> called without a genre returns
  exactly the records that have no genre, in store order; the result is empty only
  when every record has a genre.
\<close>

theorem fetchMoviesByGenre_undefined:
  "fetchMoviesByGenre None st = filter (\<lambda>m. genre m = None) (movies st) \<and>
   set (fetchMoviesByGenre None st) = {m \<in> set (movies st). genre m = None} \<and>
   (fetchMoviesByGenre None st = []) = (\<forall>m\<in>set (movies st). genre m \<noteq> None)"
  by (simp add: fetchMoviesByGenre_def filter_empty_conv del: not_None_eq)

theorem fetchMoviesByGenre_undefined_witness:
  "map genre (movies (MovieAPI (\<lambda>x. x) (\<lambda>k. 0) [empty_obj\<lparr>genre := Some ''Drama''\<rparr>, empty_obj]))
     = [Some ''Drama'', None] \<and>
   map id_m (fetchMoviesByGenre None
     (MovieAPI (\<lambda>x. x) (\<lambda>k. 0) [empty_obj\<lparr>genre := Some ''Drama''\<rparr>, empty_obj])) = [Some 1] \<and>
   fetchMoviesByGenre None
     (MovieAPI (\<lambda>x. x) (\<lambda>k. 0) [empty_obj\<lparr>genre := Some ''Drama''\<rparr>, empty_obj]) \<noteq> [] \<and>
   map id_m (fetchMoviesByGenre (Some ''Drama'')
     (MovieAPI (\<lambda>x. x) (\<lambda>k. 0) [empty_obj\<lparr>genre := Some ''Drama''\<rparr>, empty_obj])) = [Some 0]"
proof -
  let ?st = "MovieAPI (\<lambda>x. x) (\<lambda>k. 0) [empty_obj\<lparr>genre := Some ''Drama''\<rparr>, empty_obj]"
  have st: "?st = \<lparr> idCount = 2, movies =
     [empty_obj\<lparr>id_m := Some 0, rating := Some 1, genre := Some ''Drama''\<rparr>,
      empty_obj\<lparr>id_m := Some 1, rating := Some 1\<rparr>] \<rparr>"
    by (simp add: MovieAPI_def stamped_eq empty_obj_def generateRating_def js_round_def)
  have g: "map genre (movies ?st) = [Some ''Drama'', None]"
    unfolding st by (simp add: empty_obj_def)
  have e: "fetchMoviesByGenre None ?st = filter (\<lambda>m. genre m = None) (movies ?st)"
    using fetchMoviesByGenre_undefined [of ?st] by (elim conjE)
  have a: "map id_m (fetchMoviesByGenre None ?st) = [Some 1]"
    unfolding e unfolding st by (simp add: empty_obj_def)
  then have n: "fetchMoviesByGenre None ?st \<noteq> []" by auto
  have d: "map id_m (fetchMoviesByGenre (Some ''Drama'') ?st) = [Some 0]"
    unfolding st by (simp add: fetchMoviesByGenre_def empty_obj_def)
  show ?thesis using g a n d by (intro conjI)
qed

end
